theory Spec2Isabelle
  imports Main "HOL-Library.Sublist" "HOL-Library.AList"
begin

section \<open>Python string and list primitives used by ghfd.py\<close>

text \<open>
  Python strings are modelled as HOL strings (lists of 8-bit characters). Every character
  the program inspects (\<open>/\<close>, \<open>.\<close>, \<open>v\<close>, \<open>_\<close>, the hexadecimal digits) is ASCII, and an
  ASCII byte never occurs inside the UTF-8 encoding of another code point, so the tests of
  the program read the same on bytes as on code points.
\<close>

text \<open>\<open>s.split(c)\<close> for a one-character separator: the result is never empty, and an
  empty piece stands between two adjacent separators.\<close>

fun split_on :: "char \<Rightarrow> string \<Rightarrow> string list" where
  "split_on c [] = [[]]"
| "split_on c (x # xs) =
     (if x = c then [] # split_on c xs
      else (case split_on c xs of [] \<Rightarrow> [[x]] | y # ys \<Rightarrow> (x # y) # ys))"

text \<open>\<open>s.rstrip(c)\<close> and \<open>s.strip(c)\<close> for a one-character set.\<close>

definition rstrip :: "char \<Rightarrow> string \<Rightarrow> string" where
  "rstrip c s = rev (dropWhile (\<lambda>x. x = c) (rev s))"

definition strip :: "char \<Rightarrow> string \<Rightarrow> string" where
  "strip c s = rstrip c (dropWhile (\<lambda>x. x = c) s)"

text \<open>\<open>sep.join(xs)\<close>.\<close>

fun join :: "string \<Rightarrow> string list \<Rightarrow> string" where
  "join sep [] = []"
| "join sep [x] = x"
| "join sep (x # y # ys) = x @ sep @ join sep (y # ys)"

text \<open>\<open>s.replace(a, b)\<close> for one-character \<open>a\<close> and \<open>b\<close>.\<close>

definition replace_char :: "char \<Rightarrow> char \<Rightarrow> string \<Rightarrow> string" where
  "replace_char a b s = map (\<lambda>x. if x = a then b else x) s"

text \<open>\<open>s.startswith(c)\<close> for a one-character prefix.\<close>

definition startswith :: "string \<Rightarrow> char \<Rightarrow> bool" where
  "startswith s c = (case s of [] \<Rightarrow> False | x # _ \<Rightarrow> x = c)"

text \<open>\<open>s.lower()\<close>: the ASCII capitals move to the small letters. A code point outside
  ASCII keeps bytes outside ASCII (or lowers to \<open>k\<close> or \<open>i\<close>), none of them a hexadecimal
  digit, which is all the program asks of the lowered string.\<close>

definition lower_char :: "char \<Rightarrow> char" where
  "lower_char c =
     (let n = (of_char c :: nat) in if 65 \<le> n \<and> n \<le> 90 then char_of (n + 32) else c)"

definition lower :: "string \<Rightarrow> string" where
  "lower s = map lower_char s"

text \<open>\<open>xs.insert(i, x)\<close>: a negative index counts from the end, and an index out of
  range is clamped to the nearest end.\<close>

definition py_insert :: "int \<Rightarrow> 'a \<Rightarrow> 'a list \<Rightarrow> 'a list" where
  "py_insert i x xs =
     (let n = int (length xs);
          j = (if i < 0 then max 0 (n + i) else min i n)
      in take (nat j) xs @ [x] @ drop (nat j) xs)"

section \<open>The reference parser (parse_github_url)\<close>

datatype ref_type = Branch | Commit | Tag

record repo_ref =
  owner :: string
  repo :: string
  git_ref :: string
  ref_type :: ref_type
  folder_path :: string

text \<open>The exception classes the program raises, catches or lets pass:
  \<open>ValueError\<close> from the parser, \<open>CalledProcessError\<close> from a command that exits non-zero,
  \<open>FileNotFoundError\<close>, any other subclass of \<open>Exception\<close>, and \<open>KeyboardInterrupt\<close>
  for what is not an \<open>Exception\<close>.\<close>

datatype exn =
  ValueError | CalledProcessError | FileNotFoundError | OtherException | KeyboardInterrupt

text \<open>Lines 45 to 50 (and again 58 to 63): the kind of a revision string.\<close>

definition classify_ref :: "string \<Rightarrow> ref_type" where
  "classify_ref g =
     (if length g = 40 \<and> list_all (\<lambda>c. c \<in> set ''0123456789abcdef'') (lower g) then Commit
      else if CHR ''.'' \<in> set g \<or> startswith g (CHR ''v'') then Tag
      else Branch)"

text \<open>Lines 27 to 65, on the list \<open>path_parts\<close>.\<close>

definition parse_path_parts :: "string list \<Rightarrow> exn + repo_ref" where
  "parse_path_parts path_parts =
     (if length path_parts < 2 then Inl ValueError
      else
        let own = path_parts ! 0;
            rep = path_parts ! 1;
            dflt = \<lparr>owner = own, repo = rep, git_ref = ''main'', ref_type = Branch,
                    folder_path = ''''\<rparr>
        in
          if length path_parts > 2 then
            if path_parts ! 2 = ''tree'' \<and> length path_parts > 3 then
              let g = path_parts ! 3;
                  fp = (if length path_parts > 4 then join ''/'' (drop 4 path_parts) else '''')
              in Inr \<lparr>owner = own, repo = rep, git_ref = g, ref_type = classify_ref g,
                      folder_path = fp\<rparr>
            else if path_parts ! 2 = ''blob'' \<and> length path_parts > 3 then
              let g = path_parts ! 3;
                  fp = (if length path_parts > 4 then join ''/'' (drop 4 path_parts) else '''')
              in Inr \<lparr>owner = own, repo = rep, git_ref = g, ref_type = classify_ref g,
                      folder_path = fp\<rparr>
            else Inr dflt
          else Inr dflt)"

text \<open>Lines 24 and 25. \<open>urlparse\<close> belongs to the Python standard library, not to this
  program: the function that takes a URL to its path component is a parameter.\<close>

definition path_parts_of :: "string \<Rightarrow> string list" where
  "path_parts_of url_path = split_on (CHR ''/'') (strip (CHR ''/'') url_path)"

definition parse_github_url :: "(string \<Rightarrow> string) \<Rightarrow> string \<Rightarrow> exn + repo_ref" where
  "parse_github_url urlparse_path github_url =
     parse_path_parts (path_parts_of (urlparse_path github_url))"

text \<open>Line 19: the constructor strips the trailing slashes of the URL it is given.\<close>

definition init_url :: "string \<Rightarrow> string" where
  "init_url github_url = rstrip (CHR ''/'') github_url"

section \<open>The clone command and the destination name\<close>

text \<open>Line 90.\<close>

definition clone_url_of :: "repo_ref \<Rightarrow> string" where
  "clone_url_of r = ''https://github.com/'' @ owner r @ ''/'' @ repo r @ ''.git''"

text \<open>Lines 107 to 120: the command is built without the depth and branch options, which
  are then inserted before the last two arguments when the revision is not a commit.\<close>

definition clone_cmd :: "repo_ref \<Rightarrow> string \<Rightarrow> string \<Rightarrow> string list" where
  "clone_cmd r clone_url repo_path_str =
     (let cmd = [''git'', ''clone'', ''--no-checkout'', ''--filter=blob:none'',
                 clone_url, repo_path_str]
      in if ref_type r \<noteq> Commit then
           py_insert (- 2) (git_ref r)
             (py_insert (- 2) ''--branch''
               (py_insert (- 2) ''1''
                 (py_insert (- 2) ''--depth'' cmd)))
         else cmd)"

text \<open>Lines 130 to 133, 138 to 141, 146 to 149 and 175 to 178: the other commands.\<close>

definition cat_file_cmd :: "string \<Rightarrow> string \<Rightarrow> string list" where
  "cat_file_cmd repo_path_str g = [''git'', ''-C'', repo_path_str, ''cat-file'', ''-e'', g]"

definition unshallow_cmd :: "string \<Rightarrow> string list" where
  "unshallow_cmd repo_path_str = [''git'', ''-C'', repo_path_str, ''fetch'', ''--unshallow'']"

definition config_cmd :: "string \<Rightarrow> string list" where
  "config_cmd repo_path_str =
     [''git'', ''-C'', repo_path_str, ''config'', ''--local'', ''core.sparseCheckout'', ''true'']"

definition checkout_cmd :: "string \<Rightarrow> string \<Rightarrow> string list" where
  "checkout_cmd repo_path_str g = [''git'', ''-C'', repo_path_str, ''checkout'', g]"

text \<open>Lines 155 to 169: the patterns, and the text written to the sparse-checkout file
  (one pattern a line).\<close>

definition sparse_patterns :: "repo_ref \<Rightarrow> string list" where
  "sparse_patterns r =
     (if folder_path r \<noteq> [] then [folder_path r, folder_path r @ ''/**''] else [''*''])"

definition sparse_text :: "repo_ref \<Rightarrow> string" where
  "sparse_text r = concat (map (\<lambda>pattern. pattern @ [CHR 0x0A]) (sparse_patterns r))"

subsection \<open>pathlib\<close>

text \<open>
  A \<open>Path\<close> is modelled by the list of its parts. Every path the program builds starts
  from the temporary directory or from the output directory; both are taken absolute, so
  a list of parts is read from the root. As pathlib does, parsing a string drops empty
  components and \<open>.\<close>, keeps \<open>..\<close>, and joining an absolute string onto a path replaces the
  path.
\<close>

type_synonym path = "string list"

definition path_parts :: "string \<Rightarrow> path" where
  "path_parts s = filter (\<lambda>x. x \<noteq> [] \<and> x \<noteq> ''.'') (split_on (CHR ''/'') s)"

text \<open>\<open>p / s\<close>\<close>

definition path_join :: "path \<Rightarrow> string \<Rightarrow> path" where
  "path_join p s = (if startswith s (CHR ''/'') then path_parts s else p @ path_parts s)"

text \<open>\<open>Path(s).name\<close>\<close>

definition path_name :: "string \<Rightarrow> string" where
  "path_name s = (if path_parts s = [] then [] else last (path_parts s))"

text \<open>\<open>str(p)\<close>\<close>

definition path_str :: "path \<Rightarrow> string" where
  "path_str p = CHR ''/'' # join ''/'' p"

text \<open>Lines 188 to 195 (a folder) and 212 to 217 (the whole repository): the name of the
  destination under the output directory. The source calls it \<open>target_name\<close> in the first
  branch and \<open>folder_name\<close> in the second.\<close>

definition target_name :: "repo_ref \<Rightarrow> string" where
  "target_name r =
     (if folder_path r \<noteq> [] then
        let folder_name = path_name (folder_path r) in
        if ref_type r = Commit then folder_name @ ''_'' @ take 8 (git_ref r)
        else if ref_type r = Tag then
          folder_name @ ''_'' @ replace_char (CHR ''/'') (CHR ''_'') (git_ref r)
        else (if git_ref r \<noteq> ''main'' then folder_name @ ''_'' @ git_ref r else folder_name)
      else
        if ref_type r = Commit then repo r @ ''_'' @ take 8 (git_ref r)
        else if ref_type r = Tag then
          repo r @ ''_'' @ replace_char (CHR ''/'') (CHR ''_'') (git_ref r)
        else (if git_ref r \<noteq> ''main'' then repo r @ ''_'' @ git_ref r else repo r))"

section \<open>The collaborators: filesystem and git\<close>

text \<open>
  The filesystem is a tree: a regular file with its bytes, or a directory with its
  entries (an association list, read with \<open>map_of\<close>). Symbolic links, permissions and
  I/O errors are outside the model, and the filesystem does not interpret \<open>..\<close>: a part of
  that name is looked up as an entry, where the operating system would step to the
  parent. The statements about the requested path and about the destination are
  therefore made for paths without such a part.
\<close>

datatype node = File string | Dir "(string \<times> node) list"

fun get :: "node \<Rightarrow> path \<Rightarrow> node option" where
  "get n [] = Some n"
| "get (File x) (c # cs) = None"
| "get (Dir es) (c # cs) = (case map_of es c of None \<Rightarrow> None | Some n \<Rightarrow> get n cs)"

text \<open>\<open>Path.exists()\<close> and \<open>Path.is_dir()\<close>.\<close>

definition exists :: "node \<Rightarrow> path \<Rightarrow> bool" where
  "exists t p = (get t p \<noteq> None)"

definition is_dir :: "node \<Rightarrow> path \<Rightarrow> bool" where
  "is_dir t p = (case get t p of Some (Dir es) \<Rightarrow> True | _ \<Rightarrow> False)"

text \<open>A proper ancestor of the path is a regular file.\<close>

fun blocked :: "path \<Rightarrow> node \<Rightarrow> bool" where
  "blocked [] t = False"
| "blocked (c # cs) (File x) = True"
| "blocked (c # cs) (Dir es) = (case map_of es c of None \<Rightarrow> False | Some n \<Rightarrow> blocked cs n)"

text \<open>\<open>put p new t\<close> stores \<open>new\<close> at \<open>p\<close>, making the missing directories on the way
  (it leaves the tree as it is where a regular file blocks the path).\<close>

fun put :: "path \<Rightarrow> node \<Rightarrow> node \<Rightarrow> node" where
  "put [] new t = new"
| "put (c # cs) new (File x) = File x"
| "put (c # cs) new (Dir es) =
     Dir (AList.update c
            (put cs new (case map_of es c of None \<Rightarrow> Dir [] | Some n \<Rightarrow> n)) es)"

text \<open>\<open>del p t\<close> removes the entry at \<open>p\<close> with everything below it.\<close>

fun del :: "path \<Rightarrow> node \<Rightarrow> node" where
  "del [] t = Dir []"
| "del (c # cs) (File x) = File x"
| "del [c] (Dir es) = Dir (AList.delete c es)"
| "del (c # c' # cs) (Dir es) =
     (case map_of es c of
        None \<Rightarrow> Dir es
      | Some n \<Rightarrow> Dir (AList.update c (del (c' # cs) n) es))"

text \<open>\<open>shutil.rmtree(p)\<close>: the path must be a directory.\<close>

definition rmtree :: "path \<Rightarrow> node \<Rightarrow> exn option \<times> node" where
  "rmtree p t =
     (case get t p of
        None \<Rightarrow> (Some FileNotFoundError, t)
      | Some (File x) \<Rightarrow> (Some OtherException, t)
      | Some (Dir es) \<Rightarrow> (None, del p t))"

text \<open>
  \<open>shutil.copytree(src, dst)\<close>: the source is listed first (it must be a directory), then
  the destination is made with its missing parents (it must not exist), then the entries
  listed are copied. When the destination lies below an entry listed in the source, Python
  copies the growing destination into itself until the operating system refuses the path;
  the model reports that failure and leaves out what the abandoned copy wrote.
\<close>

definition copytree :: "path \<Rightarrow> path \<Rightarrow> node \<Rightarrow> exn option \<times> node" where
  "copytree src dst t =
     (case get t src of
        None \<Rightarrow> (Some FileNotFoundError, t)
      | Some (File x) \<Rightarrow> (Some OtherException, t)
      | Some (Dir es) \<Rightarrow>
          if exists t dst \<or> blocked dst t then (Some OtherException, t)
          else if prefix src dst \<and> exists t (take (Suc (length src)) dst)
            then (Some OtherException, t)
          else (None, put dst (Dir es) t))"

text \<open>\<open>shutil.copy2(src, dst)\<close> for a source that is not a directory: the parent of the
  destination must be a directory, and a directory at the destination would receive the
  file under the source's name.\<close>

definition copy2 :: "path \<Rightarrow> path \<Rightarrow> node \<Rightarrow> exn option \<times> node" where
  "copy2 src dst t =
     (case get t src of
        None \<Rightarrow> (Some FileNotFoundError, t)
      | Some (Dir es) \<Rightarrow> (Some OtherException, t)
      | Some (File x) \<Rightarrow>
          if is_dir t dst then
            (if src = [] \<or> is_dir t (dst @ [last src]) then (Some OtherException, t)
             else (None, put (dst @ [last src]) (File x) t))
          else if dst = [] \<or> blocked dst t then (Some OtherException, t)
          else if \<not> is_dir t (butlast dst) then (Some FileNotFoundError, t)
          else (None, put dst (File x) t))"

text \<open>\<open>Path.mkdir(parents=True, exist_ok=True)\<close>.\<close>

definition mkdir_parents :: "path \<Rightarrow> node \<Rightarrow> exn option \<times> node" where
  "mkdir_parents p t =
     (if is_dir t p then (None, t)
      else if exists t p \<or> blocked p t then (Some OtherException, t)
      else (None, put p (Dir []) t))"

text \<open>\<open>Path.iterdir()\<close>: the names in the directory, each once, listed before the loop
  body first runs.\<close>

definition iterdir :: "node \<Rightarrow> path \<Rightarrow> exn + string list" where
  "iterdir t p =
     (case get t p of
        None \<Rightarrow> Inl FileNotFoundError
      | Some (File x) \<Rightarrow> Inl OtherException
      | Some (Dir es) \<Rightarrow> Inr (remdups (map fst es)))"

text \<open>\<open>open(p, 'w')\<close> followed by the writes: the parent must be a directory and the path
  must not be one.\<close>

definition write_file :: "path \<Rightarrow> string \<Rightarrow> node \<Rightarrow> exn option \<times> node" where
  "write_file p content t =
     (if p = [] \<or> blocked p t \<or> is_dir t p then (Some OtherException, t)
      else if \<not> is_dir t (butlast p) then (Some FileNotFoundError, t)
      else (None, put p (File content) t))"

text \<open>
  The state of a run: the filesystem, and the commands handed to \<open>subprocess.run\<close> so far.
  What git does is a parameter: a function from the command and the filesystem to the
  exception raised, if any (\<open>CalledProcessError\<close> for a non-zero exit status, as
  \<open>check=True\<close> asks), and the filesystem it leaves. The remote repository is part of that
  function.
\<close>

record world =
  fs :: node
  trace :: "string list list"

type_synonym git = "string list \<Rightarrow> node \<Rightarrow> exn option \<times> node"

definition subprocess_run :: "git \<Rightarrow> string list \<Rightarrow> world \<Rightarrow> exn option \<times> world" where
  "subprocess_run g cmd w =
     (case g cmd (fs w) of (e, t) \<Rightarrow> (e, \<lparr>fs = t, trace = trace w @ [cmd]\<rparr>))"

text \<open>A filesystem call inside the run.\<close>

definition fs_call :: "(node \<Rightarrow> exn option \<times> node) \<Rightarrow> world \<Rightarrow> exn option \<times> world" where
  "fs_call f w = (case f (fs w) of (e, t) \<Rightarrow> (e, w\<lparr>fs := t\<rparr>))"

text \<open>Statements in sequence: an exception raised by the first skips the second.\<close>

definition and_then ::
  "exn option \<times> world \<Rightarrow> (world \<Rightarrow> exn option \<times> world) \<Rightarrow> exn option \<times> world" where
  "and_then r f = (case r of (None, w) \<Rightarrow> f w | (Some e, w) \<Rightarrow> (Some e, w))"

section \<open>The checkout orchestrator and the placement (download_with_sparse_checkout)\<close>

text \<open>Lines 126 to 142: for a commit, probe for the object; only a non-zero exit status
  of the probe (\<open>CalledProcessError\<close>) is caught, and answered by fetching the full
  history.\<close>

definition fetch_commit :: "git \<Rightarrow> repo_ref \<Rightarrow> path \<Rightarrow> world \<Rightarrow> exn option \<times> world" where
  "fetch_commit g r repo_path w =
     (if ref_type r = Commit then
        (case subprocess_run g (cat_file_cmd (path_str repo_path) (git_ref r)) w of
           (e, w') \<Rightarrow>
             if e = Some CalledProcessError
             then subprocess_run g (unshallow_cmd (path_str repo_path)) w'
             else (e, w'))
      else (None, w))"

text \<open>Line 153.\<close>

definition sparse_file :: "path \<Rightarrow> path" where
  "sparse_file repo_path =
     path_join (path_join (path_join repo_path ''.git'') ''info'') ''sparse-checkout''"

text \<open>Lines 104 to 179: clone, fetch the commit, configure, write the patterns, check
  out.\<close>

definition checkout_steps :: "git \<Rightarrow> repo_ref \<Rightarrow> path \<Rightarrow> world \<Rightarrow> exn option \<times> world" where
  "checkout_steps g r repo_path w =
     and_then (subprocess_run g (clone_cmd r (clone_url_of r) (path_str repo_path)) w)
       (\<lambda>w. and_then (fetch_commit g r repo_path w)
         (\<lambda>w. and_then (subprocess_run g (config_cmd (path_str repo_path)) w)
           (\<lambda>w. and_then (fs_call (write_file (sparse_file repo_path) (sparse_text r)) w)
             (\<lambda>w. subprocess_run g (checkout_cmd (path_str repo_path) (git_ref r)) w))))"

text \<open>Lines 203 to 205 and 225 to 227.\<close>

definition remove_existing :: "path \<Rightarrow> world \<Rightarrow> exn option \<times> world" where
  "remove_existing target_path w =
     (if exists (fs w) target_path then fs_call (rmtree target_path) w else (None, w))"

text \<open>Lines 233 to 238. An item is the repository directory extended by a name the
  directory lists, so \<open>target_path / item.name\<close> appends that name.\<close>

fun copy_items :: "path \<Rightarrow> path \<Rightarrow> string list \<Rightarrow> world \<Rightarrow> exn option \<times> world" where
  "copy_items repo_path target_path [] w = (None, w)"
| "copy_items repo_path target_path (name # names) w =
     (if name \<noteq> ''.git'' then
        and_then
          (if is_dir (fs w) (repo_path @ [name])
           then fs_call (copytree (repo_path @ [name]) (target_path @ [name])) w
           else fs_call (copy2 (repo_path @ [name]) (target_path @ [name])) w)
          (copy_items repo_path target_path names)
      else copy_items repo_path target_path names w)"

text \<open>Lines 183 to 238. The counts printed afterwards (lines 243 and 244) only read the
  destination.\<close>

definition copy_to_destination ::
  "repo_ref \<Rightarrow> path \<Rightarrow> path \<Rightarrow> world \<Rightarrow> exn option \<times> world" where
  "copy_to_destination r output_dir repo_path w =
     (if folder_path r \<noteq> [] then
        let source_folder = path_join repo_path (folder_path r) in
        if \<not> exists (fs w) source_folder then (Some FileNotFoundError, w)
        else
          let target_path = path_join output_dir (target_name r) in
          and_then (remove_existing target_path w)
            (fs_call (copytree source_folder target_path))
      else
        let target_path = path_join output_dir (target_name r) in
        and_then (remove_existing target_path w)
          (\<lambda>w. and_then (fs_call (mkdir_parents target_path) w)
            (\<lambda>w. case iterdir (fs w) repo_path of
                    Inl e \<Rightarrow> (Some e, w)
                  | Inr names \<Rightarrow> copy_items repo_path target_path names w)))"

text \<open>The body of the \<open>try\<close> statement.\<close>

definition try_body ::
  "git \<Rightarrow> repo_ref \<Rightarrow> path \<Rightarrow> path \<Rightarrow> world \<Rightarrow> exn option \<times> world" where
  "try_body g r output_dir repo_path w =
     and_then (checkout_steps g r repo_path w) (copy_to_destination r output_dir repo_path)"

text \<open>
  Lines 89 to 269. The parser runs before the workspace exists, and its \<open>ValueError\<close>
  leaves the function. \<open>temp_dir\<close> is the name \<open>tempfile\<close> picks for the new directory. The
  three handlers return False for every \<open>Exception\<close>; anything else passes through. Leaving
  the \<open>with\<close> block removes the temporary directory, whichever way the block is left.
\<close>

datatype outcome = ReturnTrue | ReturnFalse exn | Raise exn

definition download_with_sparse_checkout ::
  "git \<Rightarrow> (string \<Rightarrow> string) \<Rightarrow> string \<Rightarrow> path \<Rightarrow> path \<Rightarrow> node \<Rightarrow> outcome \<times> world" where
  "download_with_sparse_checkout g urlparse_path github_url output_dir temp_dir t =
     (case parse_github_url urlparse_path github_url of
        Inl e \<Rightarrow> (Raise e, \<lparr>fs = t, trace = []\<rparr>)
      | Inr r \<Rightarrow>
          let repo_path = path_join temp_dir (repo r);
              w0 = \<lparr>fs = put temp_dir (Dir []) t, trace = []\<rparr>
          in case try_body g r output_dir repo_path w0 of
               (e, w1) \<Rightarrow>
                 ((case e of
                     None \<Rightarrow> ReturnTrue
                   | Some x \<Rightarrow> if x = KeyboardInterrupt then Raise x else ReturnFalse x),
                  w1\<lparr>fs := del temp_dir (fs w1)\<rparr>))"

section \<open>What a directory holds\<close>

text \<open>
  The statements about the destination compare directories by what every relative path
  leads to: nothing, a directory, or a regular file with its bytes. Two directories with
  the same \<open>contents\<close> are identical byte for byte.
\<close>

datatype entry = Absent | Directory | Regular string

definition entry_at :: "node \<Rightarrow> path \<Rightarrow> entry" where
  "entry_at t p =
     (case get t p of None \<Rightarrow> Absent | Some (File x) \<Rightarrow> Regular x | Some (Dir es) \<Rightarrow> Directory)"





text \<open>The state in which the placement starts: the workspace is made and lines 104 to 179
  have run in it.\<close>

definition workspace_after_checkout ::
  "git \<Rightarrow> repo_ref \<Rightarrow> path \<Rightarrow> node \<Rightarrow> exn option \<times> world" where
  "workspace_after_checkout g r temp_dir t =
     checkout_steps g r (path_join temp_dir (repo r))
       \<lparr>fs = put temp_dir (Dir []) t, trace = []\<rparr>"

section \<open>A git for the examples\<close>

text \<open>
  The examples below run the program against this stand-in for git: cloning makes
  \<open>.git/info\<close> in the directory named last on the command line, the object probe exits
  non-zero, checking out writes the file \<open>src/a.txt\<close> into the directory given with \<open>-C\<close>, and
  every other command succeeds and changes nothing.
\<close>

definition example_git :: git where
  "example_git cmd t =
     (if cmd ! 1 = ''clone'' then
        (None, put (path_parts (last cmd) @ [''.git'', ''info'']) (Dir []) t)
      else if cmd ! 3 = ''cat-file'' then (Some CalledProcessError, t)
      else if cmd ! 3 = ''checkout'' then
        (None, put (path_parts (cmd ! 2) @ [''src'', ''a.txt'']) (File ''hello'') t)
      else (None, t))"

section \<open>Properties of the parser\<close>

subsection \<open>Splitting and stripping\<close>

lemma split_on_nonempty: "split_on c s \<noteq> []"
  by (induction s) (auto split: list.splits)

lemma split_on_no_sep: "c \<notin> set x \<Longrightarrow> split_on c x = [x]"
  by (induction x) auto

lemma split_on_append_no_sep:
  "c \<notin> set x \<Longrightarrow> split_on c (x @ c # ys) = x # split_on c ys"
  by (induction x) (auto split: list.splits)

lemma split_on_join:
  "segs \<noteq> [] \<Longrightarrow> \<forall>s \<in> set segs. c \<notin> set s \<Longrightarrow> split_on c (join [c] segs) = segs"
proof (induction "[c]" segs rule: join.induct)
  case 1 then show ?case by simp
next
  case (2 x) then show ?case by (simp add: split_on_no_sep)
next
  case (3 x y ys)
  then show ?case by (simp add: split_on_append_no_sep)
qed


lemma hd_split_on: "hd (split_on c s) = takeWhile (\<lambda>x. x \<noteq> c) s"
  by (induction s) (auto split: list.splits simp: split_on_nonempty)

lemma split_on_snoc_sep: "split_on c (s @ [c]) = split_on c s @ [[]]"
  by (induction s) (auto split: list.splits simp: split_on_nonempty)

lemma split_on_snoc_other: "x \<noteq> c \<Longrightarrow> split_on c (s @ [x]) = butlast (split_on c s) @ [last (split_on c s) @ [x]]"
  by (induction s) (auto split: list.splits simp: split_on_nonempty)

lemma last_split_on: "s \<noteq> [] \<Longrightarrow> last s \<noteq> c \<Longrightarrow> last (split_on c s) \<noteq> []"
  by (induction s rule: rev_induct) (auto simp: split_on_snoc_other)

lemma nonempty_parts_cons_sep:
  "filter (\<lambda>p. p \<noteq> []) (split_on c (dropWhile (\<lambda>x. x = c) s)) = filter (\<lambda>p. p \<noteq> []) (split_on c s)"
  by (induction s) auto

lemma nonempty_parts_rstrip:
  "filter (\<lambda>p. p \<noteq> []) (split_on c (rstrip c s)) = filter (\<lambda>p. p \<noteq> []) (split_on c s)"
  unfolding rstrip_def
  by (induction s rule: rev_induct) (auto simp: split_on_snoc_sep)

lemma nonempty_parts_strip:
  "filter (\<lambda>p. p \<noteq> []) (split_on c (strip c s)) = filter (\<lambda>p. p \<noteq> []) (split_on c s)"
  by (simp add: strip_def nonempty_parts_rstrip nonempty_parts_cons_sep)

lemma dropWhile_hd: "dropWhile P xs \<noteq> [] \<Longrightarrow> \<not> P (hd (dropWhile P xs))"
  by (induction xs) auto

lemma rstrip_last: "rstrip c s \<noteq> [] \<Longrightarrow> last (rstrip c s) \<noteq> c"
proof -
  assume a: "rstrip c s \<noteq> []"
  let ?d = "dropWhile (\<lambda>x. x = c) (rev s)"
  from a have ne: "?d \<noteq> []" by (simp only: rstrip_def rev_is_Nil_conv not_False_eq_True)
  then have "hd ?d \<noteq> c" using dropWhile_hd [of "\<lambda>x. x = c" "rev s"] by blast
  moreover have "last (rstrip c s) = hd ?d"
    using ne by (simp only: rstrip_def last_rev)
  ultimately show ?thesis by simp
qed

lemma rstrip_snoc: "rstrip c (s @ [x]) = (if x = c then rstrip c s else s @ [x])"
  by (simp add: rstrip_def)

lemma rstrip_hd: "s \<noteq> [] \<Longrightarrow> hd s \<noteq> c \<Longrightarrow> rstrip c s \<noteq> [] \<and> hd (rstrip c s) = hd s"
proof (induction s rule: rev_induct)
  case Nil
  then show ?case by simp
next
  case (snoc x xs)
  show ?case
  proof (cases "x = c")
    case True
    with snoc.prems have "xs \<noteq> []" by auto
    moreover from this snoc.prems have "hd xs \<noteq> c" by simp
    ultimately show ?thesis using snoc.IH True by (simp add: rstrip_snoc)
  next
    case False
    then show ?thesis by (simp add: rstrip_snoc)
  qed
qed

lemma strip_ends:
  "strip c s = [] \<or> (hd (strip c s) \<noteq> c \<and> last (strip c s) \<noteq> c)"
proof (cases "dropWhile (\<lambda>x. x = c) s = []")
  case True
  then have "strip c s = []" by (simp only: strip_def rstrip_def rev.simps dropWhile.simps)
  then show ?thesis by simp
next
  case False
  let ?d = "dropWhile (\<lambda>x. x = c) s"
  from False have h: "hd ?d \<noteq> c"
    using dropWhile_hd [of "\<lambda>x. x = c" s] by blast
  from rstrip_hd [OF False h] have "rstrip c ?d \<noteq> []" "hd (rstrip c ?d) \<noteq> c"
    using h by simp_all
  moreover from this have "last (rstrip c ?d) \<noteq> c" by (simp add: rstrip_last)
  ultimately show ?thesis by (simp add: strip_def)
qed


lemma split_on_append: "split_on c (xs @ c # ys) = split_on c xs @ split_on c ys"
proof (induction xs)
  case Nil
  then show ?case by simp
next
  case (Cons x xs)
  obtain y ys' where s: "split_on c xs = y # ys'"
    using split_on_nonempty [of c xs] by (cases "split_on c xs") auto
  with Cons show ?case by simp
qed

lemma split_on_last_piece:
  "c \<notin> set n \<Longrightarrow> last (split_on c (d @ c # n)) = n"
  by (simp add: split_on_append split_on_no_sep)

lemma parse_fails_iff: "parse_path_parts ps = Inl e \<longleftrightarrow> length ps < 2 \<and> e = ValueError"
  by (auto simp: parse_path_parts_def Let_def)

lemma parse_owner_repo:
  "parse_path_parts ps = Inr r \<Longrightarrow> owner r = ps ! 0 \<and> repo r = ps ! 1 \<and> 2 \<le> length ps"
  by (auto simp: parse_path_parts_def Let_def split: if_splits)

subsection \<open>Which URLs are refused\<close>

lemma two_nonempty_ends:
  "2 \<le> length xs \<Longrightarrow> hd xs \<noteq> [] \<Longrightarrow> last xs \<noteq> [] \<Longrightarrow> 2 \<le> length (filter (\<lambda>p. p \<noteq> []) xs)"
proof -
  assume len: "2 \<le> length xs" and h: "hd xs \<noteq> []" and l: "last xs \<noteq> []"
  from len obtain a ys where xs: "xs = a # ys" and ys: "ys \<noteq> []"
    by (cases xs) (auto simp: Suc_le_eq)
  from ys l xs have "last ys \<in> set ys" "last ys \<noteq> []" by auto
  then have "filter (\<lambda>p. p \<noteq> []) ys \<noteq> []"
    by (auto simp: filter_empty_conv)
  then have "1 \<le> length (filter (\<lambda>p. p \<noteq> []) ys)"
    by (cases "filter (\<lambda>p. p \<noteq> []) ys") auto
  with h xs show ?thesis by simp
qed

lemma path_parts_short:
  "length (path_parts_of p) < 2 \<longleftrightarrow> length (filter (\<lambda>s. s \<noteq> []) (split_on (CHR ''/'') p)) < 2"
proof -
  let ?c = "CHR ''/''"
  let ?t = "strip ?c p"
  let ?ne = "filter (\<lambda>s. s \<noteq> [])"
  have eq: "?ne (split_on ?c p) = ?ne (path_parts_of p)"
    by (simp add: path_parts_of_def nonempty_parts_strip)
  have "length (path_parts_of p) < 2 \<longleftrightarrow> length (?ne (path_parts_of p)) < 2"
  proof (cases "?t = []")
    case True
    then show ?thesis by (simp add: path_parts_of_def)
  next
    case False
    with strip_ends [of ?c p] have ends: "hd ?t \<noteq> ?c" "last ?t \<noteq> ?c" by auto
    from False ends(1) have "takeWhile (\<lambda>x. x \<noteq> ?c) ?t \<noteq> []"
      by (cases ?t) auto
    then have h: "hd (path_parts_of p) \<noteq> []"
      by (simp add: path_parts_of_def hd_split_on)
    from False ends(2) have l: "last (path_parts_of p) \<noteq> []"
      by (simp add: path_parts_of_def last_split_on)
    show ?thesis
    proof
      assume "length (path_parts_of p) < 2"
      moreover have "length (?ne (path_parts_of p)) \<le> length (path_parts_of p)"
        by (rule length_filter_le)
      ultimately show "length (?ne (path_parts_of p)) < 2" by linarith
    next
      assume a: "length (?ne (path_parts_of p)) < 2"
      show "length (path_parts_of p) < 2"
      proof (rule ccontr)
        assume "\<not> length (path_parts_of p) < 2"
        then have "2 \<le> length (path_parts_of p)" by simp
        from two_nonempty_ends [OF this h l] a show False by simp
      qed
    qed
  qed
  with eq show ?thesis by simp
qed

lemma path_parts_hd_nonempty:
  "2 \<le> length (path_parts_of p) \<Longrightarrow> path_parts_of p ! 0 \<noteq> []"
proof -
  let ?c = "CHR ''/''"
  let ?t = "strip ?c p"
  assume len: "2 \<le> length (path_parts_of p)"
  then have "?t \<noteq> []" by (auto simp: path_parts_of_def)
  with strip_ends [of ?c p] have "hd ?t \<noteq> ?c" by auto
  with \<open>?t \<noteq> []\<close> have "takeWhile (\<lambda>x. x \<noteq> ?c) ?t \<noteq> []"
    by (cases ?t) auto
  then have "hd (path_parts_of p) \<noteq> []"
    by (simp add: path_parts_of_def hd_split_on)
  moreover from len have "path_parts_of p \<noteq> []" by auto
  ultimately show ?thesis by (simp add: hd_conv_nth)
qed

text \<open>
  C5, as amended. Parsing fails, with \<open>ValueError\<close> and nothing else, exactly when fewer
  than 2 non-empty segments remain after splitting the URL path on \<open>/\<close>. In every successful
  parse the owner is non-empty, and the repo is non-empty when the stripped path has no
  empty segment (no two adjacent slashes).
\<close>

theorem parse_invalid_url_iff:
  "(parse_github_url urlparse_path u = Inl ValueError \<longleftrightarrow>
      length (filter (\<lambda>s. s \<noteq> []) (split_on (CHR ''/'') (urlparse_path u))) < 2)
   \<and> (\<forall>e. parse_github_url urlparse_path u = Inl e \<longrightarrow> e = ValueError)
   \<and> (\<forall>r. parse_github_url urlparse_path u = Inr r \<longrightarrow>
         owner r \<noteq> [] \<and> ([] \<notin> set (path_parts_of (urlparse_path u)) \<longrightarrow> repo r \<noteq> []))"
proof (intro conjI allI impI)
  show "parse_github_url urlparse_path u = Inl ValueError \<longleftrightarrow>
      length (filter (\<lambda>s. s \<noteq> []) (split_on (CHR ''/'') (urlparse_path u))) < 2"
    by (simp add: parse_github_url_def parse_fails_iff path_parts_short)
next
  fix e assume "parse_github_url urlparse_path u = Inl e"
  then show "e = ValueError" by (simp add: parse_github_url_def parse_fails_iff)
next
  fix r assume r: "parse_github_url urlparse_path u = Inr r"
  from parse_owner_repo [OF r [unfolded parse_github_url_def]]
  show "owner r \<noteq> []" by (simp add: path_parts_hd_nonempty)
next
  fix r assume r: "parse_github_url urlparse_path u = Inr r"
    and ne: "[] \<notin> set (path_parts_of (urlparse_path u))"
  from parse_owner_repo [OF r [unfolded parse_github_url_def]]
  have "repo r = path_parts_of (urlparse_path u) ! 1" "1 < length (path_parts_of (urlparse_path u))"
    by auto
  then have "repo r \<in> set (path_parts_of (urlparse_path u))" by simp
  with ne show "repo r \<noteq> []" by metis
qed

theorem parse_empty_repo_counterexample:
  "\<not> (\<forall>urlparse_path u r. parse_github_url urlparse_path u = Inr r \<longrightarrow> owner r \<noteq> [] \<and> repo r \<noteq> [])"
proof
  assume a: "\<forall>urlparse_path u r. parse_github_url urlparse_path u = Inr r \<longrightarrow> owner r \<noteq> [] \<and> repo r \<noteq> []"
  have "parse_github_url (drop 18) ''https://github.com/a//b'' =
          Inr \<lparr>owner = ''a'', repo = [], git_ref = ''main'', ref_type = Branch, folder_path = []\<rparr>"
    by (simp add: parse_github_url_def path_parts_of_def strip_def rstrip_def parse_path_parts_def)
  with a show False by fastforce
qed



subsection \<open>The kind of a revision\<close>

lemma hex_lower_code:
  "x \<in> set ''0123456789abcdef'' \<longleftrightarrow>
     (48 \<le> (of_char x :: nat) \<and> (of_char x :: nat) \<le> 57)
     \<or> (97 \<le> (of_char x :: nat) \<and> (of_char x :: nat) \<le> 102)"
proof -
  have "x \<in> set ''0123456789abcdef'' \<longleftrightarrow>
        (of_char x :: nat) \<in> of_char ` set ''0123456789abcdef''"
    by (rule inj_image_mem_iff [OF inj_of_char, symmetric])
  also have "(of_char ` set ''0123456789abcdef'' :: nat set) = {48..57} \<union> {97..102}"
    by (simp add: set_eq_iff) arith
  finally show ?thesis by simp
qed

lemma hex_any_code:
  "x \<in> set ''0123456789abcdefABCDEF'' \<longleftrightarrow>
     (48 \<le> (of_char x :: nat) \<and> (of_char x :: nat) \<le> 57)
     \<or> (97 \<le> (of_char x :: nat) \<and> (of_char x :: nat) \<le> 102)
     \<or> (65 \<le> (of_char x :: nat) \<and> (of_char x :: nat) \<le> 70)"
proof -
  have "x \<in> set ''0123456789abcdefABCDEF'' \<longleftrightarrow>
        (of_char x :: nat) \<in> of_char ` set ''0123456789abcdefABCDEF''"
    by (rule inj_image_mem_iff [OF inj_of_char, symmetric])
  also have "(of_char ` set ''0123456789abcdefABCDEF'' :: nat set) =
             {48..57} \<union> {97..102} \<union> {65..70}"
    by (simp add: set_eq_iff) arith
  finally show ?thesis by auto
qed

lemma lower_hex:
  "lower_char c \<in> set ''0123456789abcdef'' \<longleftrightarrow> c \<in> set ''0123456789abcdefABCDEF''"
proof -
  have "(of_char c :: nat) < 256" by simp
  then show ?thesis
    unfolding hex_lower_code hex_any_code lower_char_def Let_def
    by auto
qed

lemma all_hex_lower:
  "list_all (\<lambda>c. c \<in> set ''0123456789abcdef'') (lower g) \<longleftrightarrow>
   set g \<subseteq> set ''0123456789abcdefABCDEF''"
proof -
  have "list_all (\<lambda>c. c \<in> set ''0123456789abcdef'') (lower g) \<longleftrightarrow>
        (\<forall>c \<in> set g. lower_char c \<in> set ''0123456789abcdef'')"
    by (simp only: lower_def list_all_iff set_map ball_simps)
  also have "\<dots> \<longleftrightarrow> (\<forall>c \<in> set g. c \<in> set ''0123456789abcdefABCDEF'')"
    by (simp only: lower_hex)
  finally show ?thesis by blast
qed

lemma startswith_take: "startswith g c \<longleftrightarrow> take 1 g = [c]"
  by (cases g) (simp_all add: startswith_def)

lemma parse_ref_type: "parse_path_parts ps = Inr r \<Longrightarrow> ref_type r = classify_ref (git_ref r)"
  by (auto simp: parse_path_parts_def Let_def classify_ref_def startswith_def split: if_splits)

text \<open>
  C1. Every revision string has exactly one kind. It is Commit exactly when it is 40
  hexadecimal characters, in either case; otherwise it is Tag exactly when it contains a
  dot or starts with \<open>v\<close>; otherwise it is Branch. So a string of 40 hexadecimal characters
  is Commit whatever else it looks like, and the kind of every parsed reference is the
  kind of its revision.
\<close>

theorem classify_ref_kinds:
  "(classify_ref g = Commit \<longleftrightarrow>
      length g = 40 \<and> set g \<subseteq> set ''0123456789abcdefABCDEF'')
   \<and> (classify_ref g = Tag \<longleftrightarrow>
      \<not> (length g = 40 \<and> set g \<subseteq> set ''0123456789abcdefABCDEF'')
      \<and> (CHR ''.'' \<in> set g \<or> take 1 g = ''v''))
   \<and> (classify_ref g = Branch \<longleftrightarrow>
      \<not> (length g = 40 \<and> set g \<subseteq> set ''0123456789abcdefABCDEF'')
      \<and> CHR ''.'' \<notin> set g \<and> take 1 g \<noteq> ''v'')
   \<and> (\<forall>ps r. parse_path_parts ps = Inr r \<longrightarrow> ref_type r = classify_ref (git_ref r))"
  unfolding classify_ref_def all_hex_lower startswith_take
  using parse_ref_type [unfolded classify_ref_def all_hex_lower startswith_take]
  by (cases "length g = 40 \<and> set g \<subseteq> set ''0123456789abcdefABCDEF''";
      cases "CHR ''.'' \<in> set g \<or> take 1 g = ''v''") (simp_all only: if_True if_False ref_type.distinct simp_thms, blast+)


theorem classify_ref_kinds_witness:
  "classify_ref ''03B85877996253b0518e8a57f6249a4d2dcf4697'' = Commit
   \<and> classify_ref ''v1.2.0'' = Tag
   \<and> classify_ref ''develop'' = Branch
   \<and> ref_type \<lparr>owner = ''o'', repo = ''r'', git_ref = ''main'', ref_type = Branch,
                 folder_path = []\<rparr> = classify_ref ''main''"
proof -
  have p: "parse_path_parts [''o'', ''r''] =
             Inr \<lparr>owner = ''o'', repo = ''r'', git_ref = ''main'', ref_type = Branch,
                  folder_path = []\<rparr>"
    by (simp add: parse_path_parts_def)
  show ?thesis
    using classify_ref_kinds [of "''03B85877996253b0518e8a57f6249a4d2dcf4697''"]
      classify_ref_kinds [of "''v1.2.0''"] classify_ref_kinds [of "''develop''"]
      classify_ref_kinds [of "''main''", THEN conjunct2, THEN conjunct2, THEN conjunct2,
        THEN spec, THEN spec, THEN mp, OF p]
    by simp
qed

subsection \<open>What the URL forms parse to\<close>

lemma parse_default_parts:
  "rest = [] \<or> (hd rest \<noteq> ''tree'' \<and> hd rest \<noteq> ''blob'') \<or> length rest = 1 \<Longrightarrow>
   parse_path_parts (own # rep # rest) =
     Inr \<lparr>owner = own, repo = rep, git_ref = ''main'', ref_type = Branch, folder_path = []\<rparr>"
  by (cases rest) (auto simp: parse_path_parts_def Let_def)

lemma parse_tree_blob_parts:
  "t = ''tree'' \<or> t = ''blob'' \<Longrightarrow>
   parse_path_parts (own # rep # t # g # rest) =
     Inr \<lparr>owner = own, repo = rep, git_ref = g, ref_type = classify_ref g,
          folder_path = join ''/'' rest\<rparr>"
  by (cases rest) (auto simp: parse_path_parts_def Let_def)

lemma rstrip_id: "s \<noteq> [] \<Longrightarrow> last s \<noteq> c \<Longrightarrow> rstrip c s = s"
  by (induction s rule: rev_induct) (simp_all add: rstrip_snoc)

lemma strip_slash_path:
  "s \<noteq> [] \<Longrightarrow> hd s \<noteq> c \<Longrightarrow> last s \<noteq> c \<Longrightarrow> strip c (c # s) = s"
  by (cases s) (simp_all add: strip_def rstrip_id)

lemma join_last:
  "segs \<noteq> [] \<Longrightarrow> last segs \<noteq> [] \<Longrightarrow>
   join sep segs \<noteq> [] \<and> last (join sep segs) = last (last segs)"
  by (induction sep segs rule: join.induct) auto

lemma join_hd:
  "segs \<noteq> [] \<Longrightarrow> hd segs \<noteq> [] \<Longrightarrow> hd (join sep segs) = hd (hd segs)"
  by (induction sep segs rule: join.induct) auto

lemma path_parts_of_segments:
  assumes "segs \<noteq> []" "\<forall>s \<in> set segs. CHR ''/'' \<notin> set s" "hd segs \<noteq> []" "last segs \<noteq> []"
  shows "path_parts_of (CHR ''/'' # join ''/'' segs) = segs"
proof -
  let ?s = "join ''/'' segs"
  have ne: "?s \<noteq> []" and last_join: "last ?s = last (last segs)"
    using join_last [OF assms(1,4)] by auto
  have hd_join: "hd ?s = hd (hd segs)"
    using assms(1,3) by (rule join_hd)
  have "hd (hd segs) \<in> set (hd segs)" "last (last segs) \<in> set (last segs)"
    using assms(3,4) by auto
  moreover have "hd segs \<in> set segs" "last segs \<in> set segs"
    using assms(1) by auto
  ultimately have "hd ?s \<noteq> CHR ''/''" "last ?s \<noteq> CHR ''/''"
    using assms(2) hd_join last_join by metis+
  with ne have "strip (CHR ''/'') (CHR ''/'' # ?s) = ?s"
    by (rule strip_slash_path)
  then show ?thesis
    using split_on_join [OF assms(1,2)] by (simp add: path_parts_of_def)
qed


theorem parse_invalid_url_iff_witness:
  "parse_github_url (drop 18) ''https://github.com/o'' = Inl ValueError
   \<and> parse_github_url (drop 18) ''https://github.com/o/r'' \<noteq> Inl ValueError
   \<and> owner \<lparr>owner = ''o'', repo = ''r'', git_ref = ''main'', ref_type = Branch,
              folder_path = []\<rparr> \<noteq> []
   \<and> repo \<lparr>owner = ''o'', repo = ''r'', git_ref = ''main'', ref_type = Branch,
              folder_path = []\<rparr> \<noteq> []"
proof -
  have p: "parse_github_url (drop 18) ''https://github.com/o/r'' =
             Inr \<lparr>owner = ''o'', repo = ''r'', git_ref = ''main'', ref_type = Branch,
                  folder_path = []\<rparr>"
    by (simp add: parse_github_url_def path_parts_of_def strip_def rstrip_def
          parse_path_parts_def)
  have q: "[] \<notin> set (path_parts_of (drop 18 ''https://github.com/o/r''))"
    by (simp add: path_parts_of_def strip_def rstrip_def)
  have s: "length (filter (\<lambda>s. s \<noteq> []) (split_on (CHR ''/'') (drop 18 ''https://github.com/o''))) < 2"
    by simp
  have s': "\<not> length (filter (\<lambda>s. s \<noteq> []) (split_on (CHR ''/'') (drop 18 ''https://github.com/o/r''))) < 2"
    by simp
  show ?thesis
    using parse_invalid_url_iff [of "drop 18" "''https://github.com/o''"]
      parse_invalid_url_iff [of "drop 18" "''https://github.com/o/r''"] p q s s'
    by simp
qed

text \<open>
  C6. When the third segment is \<open>tree\<close> or \<open>blob\<close> and a fourth segment exists, the
  revision is the fourth segment and the path is the segments from index 4 on joined with
  \<open>/\<close>; the \<open>tree\<close> and the \<open>blob\<close> form give the same reference. In particular a URL path
  \<open>/owner/repo/tree/ref/a/b\<close> (slash-free segments, owner and b non-empty) parses to the path
  \<open>a/b\<close> and the revision \<open>ref\<close>.
\<close>

theorem parse_tree_blob:
  assumes "t = ''tree'' \<or> t = ''blob''"
  shows "parse_path_parts (own # rep # t # g # rest) =
           Inr \<lparr>owner = own, repo = rep, git_ref = g, ref_type = classify_ref g,
                folder_path = join ''/'' rest\<rparr>
         \<and> parse_path_parts (own # rep # ''tree'' # g # rest) =
           parse_path_parts (own # rep # ''blob'' # g # rest)
         \<and> (own \<noteq> [] \<and> b \<noteq> [] \<and> (\<forall>s \<in> set [own, rep, g, a, b]. CHR ''/'' \<notin> set s)
              \<and> urlparse_path u =
                ''/'' @ own @ ''/'' @ rep @ ''/'' @ t @ ''/'' @ g @ ''/'' @ a @ ''/'' @ b
            \<longrightarrow> parse_github_url urlparse_path u =
                  Inr \<lparr>owner = own, repo = rep, git_ref = g, ref_type = classify_ref g,
                       folder_path = a @ ''/'' @ b\<rparr>)"
proof (intro conjI impI)
  show "parse_path_parts (own # rep # t # g # rest) =
           Inr \<lparr>owner = own, repo = rep, git_ref = g, ref_type = classify_ref g,
                folder_path = join ''/'' rest\<rparr>"
    using assms by (rule parse_tree_blob_parts)
next
  show "parse_path_parts (own # rep # ''tree'' # g # rest) =
           parse_path_parts (own # rep # ''blob'' # g # rest)"
    by (simp add: parse_tree_blob_parts)
next
  assume a: "own \<noteq> [] \<and> b \<noteq> [] \<and> (\<forall>s \<in> set [own, rep, g, a, b]. CHR ''/'' \<notin> set s)
              \<and> urlparse_path u =
                ''/'' @ own @ ''/'' @ rep @ ''/'' @ t @ ''/'' @ g @ ''/'' @ a @ ''/'' @ b"
  let ?segs = "[own, rep, t, g, a, b]"
  have t: "CHR ''/'' \<notin> set t" using assms by auto
  have "path_parts_of (CHR ''/'' # join ''/'' ?segs) = ?segs"
    using a t by (intro path_parts_of_segments) auto
  moreover have "CHR ''/'' # join ''/'' ?segs = urlparse_path u"
    using a by simp
  ultimately have "path_parts_of (urlparse_path u) = ?segs" by simp
  then show "parse_github_url urlparse_path u =
                  Inr \<lparr>owner = own, repo = rep, git_ref = g, ref_type = classify_ref g,
                       folder_path = a @ ''/'' @ b\<rparr>"
    using parse_tree_blob_parts [OF assms, of own rep g "[a, b]"]
    by (simp add: parse_github_url_def)
qed

theorem parse_tree_blob_witness:
  "parse_path_parts [''user'', ''repo'', ''blob'', ''develop'', ''src'', ''lib'', ''x.py''] =
     Inr \<lparr>owner = ''user'', repo = ''repo'', git_ref = ''develop'',
          ref_type = classify_ref ''develop'', folder_path = ''src/lib/x.py''\<rparr>
   \<and> parse_github_url (drop 18) ''https://github.com/user/repo/tree/v1.2.0/docs/api'' =
     Inr \<lparr>owner = ''user'', repo = ''repo'', git_ref = ''v1.2.0'',
          ref_type = classify_ref ''v1.2.0'', folder_path = ''docs/api''\<rparr>"
  using parse_tree_blob [where t = "''blob''" and own = "''user''" and rep = "''repo''"
      and g = "''develop''" and rest = "[''src'', ''lib'', ''x.py'']"]
    parse_tree_blob [where t = "''tree''" and own = "''user''" and rep = "''repo''"
      and g = "''v1.2.0''" and a = "''docs''" and b = "''api''" and urlparse_path = "drop 18"
      and u = "''https://github.com/user/repo/tree/v1.2.0/docs/api''"]
  by simp

text \<open>
  C10. When the path has at least two segments and either at most three of them, or a
  third segment that is neither \<open>tree\<close> nor \<open>blob\<close>, parsing succeeds with the revision
  \<open>main\<close>, the kind Branch and the empty path: the segments after owner and repo do not
  reach the result.
\<close>

theorem parse_other_urls_default:
  assumes "path_parts_of (urlparse_path u) = own # rep # rest"
    and "length rest \<le> 1 \<or> (hd rest \<noteq> ''tree'' \<and> hd rest \<noteq> ''blob'')"
  shows "parse_github_url urlparse_path u =
           Inr \<lparr>owner = own, repo = rep, git_ref = ''main'', ref_type = Branch,
                folder_path = []\<rparr>"
proof -
  from assms(2) have "rest = [] \<or> (hd rest \<noteq> ''tree'' \<and> hd rest \<noteq> ''blob'') \<or> length rest = 1"
    by (cases rest) auto
  then show ?thesis
    using assms(1) by (simp add: parse_github_url_def parse_default_parts)
qed

theorem parse_other_urls_default_witness:
  "parse_github_url (drop 18) ''https://github.com/o/r/releases/tag/v1.0'' =
     Inr \<lparr>owner = ''o'', repo = ''r'', git_ref = ''main'', ref_type = Branch,
          folder_path = []\<rparr>
   \<and> parse_github_url (drop 18) ''https://github.com/o/r/tree'' =
     Inr \<lparr>owner = ''o'', repo = ''r'', git_ref = ''main'', ref_type = Branch,
          folder_path = []\<rparr>"
proof -
  have a: "path_parts_of (drop 18 ''https://github.com/o/r/releases/tag/v1.0'') =
             ''o'' # ''r'' # [''releases'', ''tag'', ''v1.0'']"
    by (simp add: path_parts_of_def strip_def rstrip_def)
  have b: "path_parts_of (drop 18 ''https://github.com/o/r/tree'') = ''o'' # ''r'' # [''tree'']"
    by (simp add: path_parts_of_def strip_def rstrip_def)
  show ?thesis
    using parse_other_urls_default [where urlparse_path = "drop 18"
        and u = "''https://github.com/o/r/releases/tag/v1.0''", OF a]
      parse_other_urls_default [where urlparse_path = "drop 18"
        and u = "''https://github.com/o/r/tree''", OF b]
    by simp
qed

section \<open>Properties of the clone command and of the destination name\<close>

lemma py_insert_m2:
  "py_insert (- 2) x (xs @ [a, b]) = xs @ [x, a, b]"
  by (simp add: py_insert_def Let_def)

lemma clone_cmd_eq:
  "clone_cmd r url p =
     [''git'', ''clone'', ''--no-checkout'', ''--filter=blob:none'']
     @ (if ref_type r \<noteq> Commit then [''--depth'', ''1'', ''--branch'', git_ref r] else [])
     @ [url, p]"
proof -
  have *: "\<And>xs x. py_insert (- 2) x (xs @ [url, p]) = (xs @ [x]) @ [url, p]"
    by (simp add: py_insert_m2)
  have "[''git'', ''clone'', ''--no-checkout'', ''--filter=blob:none'', url, p] =
        [''git'', ''clone'', ''--no-checkout'', ''--filter=blob:none''] @ [url, p]"
    by simp
  then show ?thesis
    unfolding clone_cmd_def Let_def by (simp only: * if_distrib) simp
qed


text \<open>
  C2. The clone command always carries \<open>--no-checkout\<close> and \<open>--filter=blob:none\<close>. When the
  revision kind is not Commit it also carries \<open>--depth 1\<close> and \<open>--branch\<close> with the revision
  string, placed before the clone URL and the directory; when the kind is Commit it carries
  neither.
\<close>

theorem clone_cmd_options:
  "clone_cmd r url p =
     [''git'', ''clone'', ''--no-checkout'', ''--filter=blob:none'']
     @ (if ref_type r \<noteq> Commit then [''--depth'', ''1'', ''--branch'', git_ref r] else [])
     @ [url, p]
   \<and> (ref_type r = Commit \<longrightarrow>
        clone_cmd r url p = [''git'', ''clone'', ''--no-checkout'', ''--filter=blob:none'', url, p])
   \<and> (ref_type r \<noteq> Commit \<longrightarrow>
        clone_cmd r url p =
          [''git'', ''clone'', ''--no-checkout'', ''--filter=blob:none'',
           ''--depth'', ''1'', ''--branch'', git_ref r, url, p])"
  by (simp add: clone_cmd_eq)


theorem clone_cmd_options_witness:
  "clone_cmd \<lparr>owner = ''o'', repo = ''r'', git_ref = ''v1.2.0'', ref_type = Tag,
              folder_path = ''docs''\<rparr> ''https://github.com/o/r.git'' ''/tmp/ws/r'' =
     [''git'', ''clone'', ''--no-checkout'', ''--filter=blob:none'',
      ''--depth'', ''1'', ''--branch'', ''v1.2.0'', ''https://github.com/o/r.git'', ''/tmp/ws/r'']
   \<and> clone_cmd \<lparr>owner = ''o'', repo = ''r'',
              git_ref = ''03b85877996253b0518e8a57f6249a4d2dcf4697'', ref_type = Commit,
              folder_path = []\<rparr> ''https://github.com/o/r.git'' ''/tmp/ws/r'' =
     [''git'', ''clone'', ''--no-checkout'', ''--filter=blob:none'',
      ''https://github.com/o/r.git'', ''/tmp/ws/r'']"
  using clone_cmd_options [of "\<lparr>owner = ''o'', repo = ''r'', git_ref = ''v1.2.0'',
      ref_type = Tag, folder_path = ''docs''\<rparr>" "''https://github.com/o/r.git''" "''/tmp/ws/r''"]
    clone_cmd_options [of "\<lparr>owner = ''o'', repo = ''r'',
      git_ref = ''03b85877996253b0518e8a57f6249a4d2dcf4697'', ref_type = Commit,
      folder_path = []\<rparr>" "''https://github.com/o/r.git''" "''/tmp/ws/r''"]
  by simp

lemma filter_keeps_last:
  "xs \<noteq> [] \<Longrightarrow> P (last xs) \<Longrightarrow> filter P xs \<noteq> [] \<and> last (filter P xs) = last xs"
  by (induction xs rule: rev_induct) simp_all

lemma path_name_last:
  "CHR ''/'' \<notin> set n \<Longrightarrow> n \<noteq> [] \<Longrightarrow> n \<noteq> ''.'' \<Longrightarrow> path_name (d @ ''/'' @ n) = n"
proof -
  assume n: "CHR ''/'' \<notin> set n" "n \<noteq> []" "n \<noteq> ''.''"
  let ?ps = "split_on (CHR ''/'') (d @ ''/'' @ n)"
  have l: "last ?ps = n" using n(1) by (simp add: split_on_last_piece)
  have ne: "?ps \<noteq> []" by (rule split_on_nonempty)
  have "last ?ps \<noteq> [] \<and> last ?ps \<noteq> ''.''" using l n(2,3) by simp
  from filter_keeps_last [of ?ps "\<lambda>x. x \<noteq> [] \<and> x \<noteq> ''.''", OF ne this] l
  have "path_parts (d @ ''/'' @ n) \<noteq> [] \<and> last (path_parts (d @ ''/'' @ n)) = n"
    unfolding path_parts_def by simp
  then show ?thesis by (simp add: path_name_def)
qed

text \<open>
  C4. The destination name is the base name of the path (the repo name when the path is
  empty) followed by \<open>_\<close> and the first 8 characters of the revision for a commit, by \<open>_\<close>
  and the revision with \<open>/\<close> replaced by \<open>_\<close> for a tag, and by \<open>_\<close> and the revision for a
  branch; the suffix is absent exactly when the kind is Branch and the revision is
  \<open>main\<close>. The base name of \<open>d/n\<close> is \<open>n\<close> for a slash-free name \<open>n\<close> other than \<open>.\<close>.
\<close>

theorem target_name_rule:
  "target_name r =
     (if folder_path r \<noteq> [] then path_name (folder_path r) else repo r)
     @ (if ref_type r = Commit then ''_'' @ take 8 (git_ref r)
        else if ref_type r = Tag then ''_'' @ replace_char (CHR ''/'') (CHR ''_'') (git_ref r)
        else if git_ref r = ''main'' then [] else ''_'' @ git_ref r)
   \<and> (target_name r = (if folder_path r \<noteq> [] then path_name (folder_path r) else repo r)
        \<longleftrightarrow> ref_type r = Branch \<and> git_ref r = ''main'')
   \<and> (CHR ''/'' \<notin> set n \<and> n \<noteq> [] \<and> n \<noteq> ''.'' \<longrightarrow> path_name (d @ ''/'' @ n) = n)"
proof (intro conjI impI)
  show eq: "target_name r =
     (if folder_path r \<noteq> [] then path_name (folder_path r) else repo r)
     @ (if ref_type r = Commit then ''_'' @ take 8 (git_ref r)
        else if ref_type r = Tag then ''_'' @ replace_char (CHR ''/'') (CHR ''_'') (git_ref r)
        else if git_ref r = ''main'' then [] else ''_'' @ git_ref r)"
    by (simp add: target_name_def Let_def)
  show "target_name r = (if folder_path r \<noteq> [] then path_name (folder_path r) else repo r)
        \<longleftrightarrow> ref_type r = Branch \<and> git_ref r = ''main''"
    unfolding eq by (cases "ref_type r") simp_all
next
  assume "CHR ''/'' \<notin> set n \<and> n \<noteq> [] \<and> n \<noteq> ''.''"
  then show "path_name (d @ ''/'' @ n) = n" using path_name_last [of n d] by simp
qed

theorem target_name_rule_witness:
  "target_name \<lparr>owner = ''o'', repo = ''repo'', git_ref = ''main'', ref_type = Branch,
                 folder_path = ''src''\<rparr> = ''src''
   \<and> target_name \<lparr>owner = ''o'', repo = ''repo'', git_ref = ''develop'', ref_type = Branch,
                 folder_path = ''src''\<rparr> = ''src_develop''
   \<and> target_name \<lparr>owner = ''o'', repo = ''repo'',
                 git_ref = ''03b85877996253b0518e8a57f6249a4d2dcf4697'', ref_type = Commit,
                 folder_path = ''.config/waybar''\<rparr> = ''waybar_03b85877''
   \<and> target_name \<lparr>owner = ''o'', repo = ''repo'', git_ref = ''v1.2.0'', ref_type = Tag,
                 folder_path = []\<rparr> = ''repo_v1.2.0''"
proof -
  have a: "path_name ''src'' = ''src''"
    by (simp add: path_name_def path_parts_def)
  have b: "path_name ''.config/waybar'' = ''waybar''"
    using target_name_rule [where n = "''waybar''" and d = "''.config''"] by simp
  show ?thesis
    using target_name_rule [of "\<lparr>owner = ''o'', repo = ''repo'', git_ref = ''main'',
        ref_type = Branch, folder_path = ''src''\<rparr>"]
      target_name_rule [of "\<lparr>owner = ''o'', repo = ''repo'', git_ref = ''develop'',
        ref_type = Branch, folder_path = ''src''\<rparr>"]
      target_name_rule [of "\<lparr>owner = ''o'', repo = ''repo'',
        git_ref = ''03b85877996253b0518e8a57f6249a4d2dcf4697'', ref_type = Commit,
        folder_path = ''.config/waybar''\<rparr>"]
      target_name_rule [of "\<lparr>owner = ''o'', repo = ''repo'', git_ref = ''v1.2.0'',
        ref_type = Tag, folder_path = []\<rparr>"]
    by (simp add: a b replace_char_def)
qed

section \<open>Properties of the filesystem model\<close>






lemma del_get_under: "p \<noteq> [] \<Longrightarrow> get (del p t) (p @ q) = None"
proof (induction p t rule: del.induct)
  case (1 t)
  then show ?case by simp
next
  case (2 c cs x)
  then show ?case by simp
next
  case (3 c es)
  then show ?case by (simp add: AList.delete_conv')
next
  case (4 c c' cs es)
  then show ?case by (simp add: AList.update_conv' split: option.splits)
qed


section \<open>Properties of the orchestrator and of the placement\<close>

subsection \<open>Paths apart from each other\<close>











subsection \<open>What a successful placement leaves in the destination\<close>



lemma fs_call_trace: "trace (snd (fs_call f w)) = trace w"
  by (cases "f (fs w)") (simp add: fs_call_def)

lemma entry_at_get: "get t p = get t' p' \<Longrightarrow> entry_at t p = entry_at t' p'"
  by (simp add: entry_at_def)















subsection \<open>The commands of a run\<close>

lemma and_then_trace:
  "(\<And>w. trace (snd (f w)) = trace w) \<Longrightarrow> trace (snd (and_then r f)) = trace (snd r)"
  by (cases r) (auto simp: and_then_def split: option.splits)

lemma remove_existing_trace: "trace (snd (remove_existing T w)) = trace w"
  by (simp add: remove_existing_def fs_call_trace)

lemma copy_items_trace: "trace (snd (copy_items R T names w)) = trace w"
proof (induction names arbitrary: w)
  case Nil
  then show ?case by simp
next
  case (Cons name names)
  show ?case
  proof (cases "name = ''.git''")
    case True
    with Cons show ?thesis by simp
  next
    case False
    let ?step = "if is_dir (fs w) (R @ [name])
                 then fs_call (copytree (R @ [name]) (T @ [name])) w
                 else fs_call (copy2 (R @ [name]) (T @ [name])) w"
    have "trace (snd (and_then ?step (copy_items R T names))) = trace (snd ?step)"
      by (rule and_then_trace) (rule Cons.IH)
    also have "\<dots> = trace w" by (simp add: fs_call_trace)
    finally show ?thesis using False by simp
  qed
qed

lemma copy_to_destination_trace: "trace (snd (copy_to_destination r out rp w)) = trace w"
proof (cases "folder_path r = []")
  case False
  show ?thesis
  proof (cases "exists (fs w) (path_join rp (folder_path r))")
    case nf: False
    with False show ?thesis by (simp add: copy_to_destination_def)
  next
    case True
    with False have "copy_to_destination r out rp w =
        and_then (remove_existing (path_join out (target_name r)) w)
          (fs_call (copytree (path_join rp (folder_path r)) (path_join out (target_name r))))"
      by (simp add: copy_to_destination_def Let_def)
    then show ?thesis
      by (simp add: and_then_trace fs_call_trace remove_existing_trace)
  qed
next
  case True
  let ?T = "path_join out (target_name r)"
  let ?loop = "\<lambda>w. case iterdir (fs w) rp of Inl e \<Rightarrow> (Some e, w)
                     | Inr names \<Rightarrow> copy_items rp ?T names w"
  have loop: "trace (snd (?loop w)) = trace w" for w
    by (cases "iterdir (fs w) rp") (simp_all add: copy_items_trace)
  have inner: "trace (snd (and_then (fs_call (mkdir_parents ?T) w) ?loop)) = trace w" for w
    using and_then_trace [of ?loop "fs_call (mkdir_parents ?T) w", OF loop]
    by (simp add: fs_call_trace)
  from True have "copy_to_destination r out rp w =
      and_then (remove_existing ?T w) (\<lambda>w. and_then (fs_call (mkdir_parents ?T) w) ?loop)"
    by (simp add: copy_to_destination_def Let_def)
  then show ?thesis
    using and_then_trace [of "\<lambda>w. and_then (fs_call (mkdir_parents ?T) w) ?loop"
        "remove_existing ?T w", OF inner]
    by (simp add: remove_existing_trace)
qed

lemma unshallow_distinct:
  "unshallow_cmd p \<noteq> clone_cmd r u p'" "unshallow_cmd p \<noteq> cat_file_cmd p' x"
  "unshallow_cmd p \<noteq> config_cmd p'" "unshallow_cmd p \<noteq> checkout_cmd p' x"
  by (simp_all add: unshallow_cmd_def clone_cmd_eq cat_file_cmd_def config_cmd_def
        checkout_cmd_def)


lemma subprocess_run_eq:
  "subprocess_run g c w = (fst (g c (fs w)), \<lparr>fs = snd (g c (fs w)), trace = trace w @ [c]\<rparr>)"
  by (simp add: subprocess_run_def split: prod.splits)

lemma try_body_trace:
  "trace (snd (try_body g r out rp w)) = trace (snd (checkout_steps g r rp w))"
  unfolding try_body_def
  by (rule and_then_trace) (rule copy_to_destination_trace)

lemma download_parsed:
  assumes "parse_github_url urlparse_path url = Inr r"
  shows "download_with_sparse_checkout g urlparse_path url out tmp t =
     (case try_body g r out (path_join tmp (repo r)) \<lparr>fs = put tmp (Dir []) t, trace = []\<rparr> of
        (e, w1) \<Rightarrow>
          ((case e of None \<Rightarrow> ReturnTrue
            | Some x \<Rightarrow> if x = KeyboardInterrupt then Raise x else ReturnFalse x),
           w1\<lparr>fs := del tmp (fs w1)\<rparr>))"
  using assms by (simp add: download_with_sparse_checkout_def Let_def)

lemma download_trace:
  assumes "parse_github_url urlparse_path url = Inr r"
  shows "trace (snd (download_with_sparse_checkout g urlparse_path url out tmp t)) =
         trace (snd (workspace_after_checkout g r tmp t))"
proof -
  let ?w0 = "\<lparr>fs = put tmp (Dir []) t, trace = []\<rparr>"
  let ?rp = "path_join tmp (repo r)"
  obtain e w1 where b: "try_body g r out ?rp ?w0 = (e, w1)" by (cases "try_body g r out ?rp ?w0")
  with download_parsed [OF assms, of g out tmp t]
  have "trace (snd (download_with_sparse_checkout g urlparse_path url out tmp t)) = trace w1"
    by simp
  also from b have "trace w1 = trace (snd (try_body g r out ?rp ?w0))" by simp
  finally show ?thesis by (simp add: try_body_trace workspace_after_checkout_def)
qed

lemma configure_trace:
  "\<exists>ys. trace (snd (and_then (subprocess_run g conf w)
             (\<lambda>w. and_then (fs_call f w) (\<lambda>w. subprocess_run g co w)))) = trace w @ conf # ys
        \<and> set ys \<subseteq> {co}"
  by (auto simp: subprocess_run_eq and_then_def fs_call_def split: prod.splits option.splits)

lemma checkout_steps_trace:
  assumes "g (clone_cmd r (clone_url_of r) (path_str rp)) (fs w) = (e1, t1)"
    and "g (cat_file_cmd (path_str rp) (git_ref r)) t1 = (e2, t2)"
  shows "\<exists>ys. set ys \<subseteq> {config_cmd (path_str rp), checkout_cmd (path_str rp) (git_ref r)} \<and>
      trace (snd (checkout_steps g r rp w)) =
        trace w @ clone_cmd r (clone_url_of r) (path_str rp) #
          (if e1 \<noteq> None then []
           else if ref_type r \<noteq> Commit then config_cmd (path_str rp) # ys
           else if e2 = None then
             cat_file_cmd (path_str rp) (git_ref r) # config_cmd (path_str rp) # ys
           else if e2 = Some CalledProcessError then
             cat_file_cmd (path_str rp) (git_ref r) # unshallow_cmd (path_str rp) # ys
           else [cat_file_cmd (path_str rp) (git_ref r)])"
proof -
  let ?clone = "clone_cmd r (clone_url_of r) (path_str rp)"
  let ?probe = "cat_file_cmd (path_str rp) (git_ref r)"
  let ?unsh = "unshallow_cmd (path_str rp)"
  let ?conf = "config_cmd (path_str rp)"
  let ?co = "checkout_cmd (path_str rp) (git_ref r)"
  let ?tail = "\<lambda>w. and_then (subprocess_run g ?conf w)
             (\<lambda>w. and_then (fs_call (write_file (sparse_file rp) (sparse_text r)) w)
                (\<lambda>w. subprocess_run g ?co w))"
  let ?w1 = "\<lparr>fs = t1, trace = trace w @ [?clone]\<rparr>"
  have tail: "\<exists>ys. trace (snd (?tail v)) = trace v @ ?conf # ys \<and> set ys \<subseteq> {?co}" for v
    by (rule configure_trace)
  have steps: "checkout_steps g r rp w =
      and_then (e1, ?w1) (\<lambda>w. and_then (fetch_commit g r rp w) ?tail)"
    using assms(1) by (simp add: checkout_steps_def subprocess_run_eq)
  show ?thesis
  proof (cases e1)
    case (Some x)
    with steps show ?thesis by (intro exI [of _ "[]"]) (simp add: and_then_def)
  next
    case None
    with steps have s1: "checkout_steps g r rp w = and_then (fetch_commit g r rp ?w1) ?tail"
      by (simp add: and_then_def)
    show ?thesis
    proof (cases "ref_type r = Commit")
      case False
      then have "fetch_commit g r rp ?w1 = (None, ?w1)" by (simp add: fetch_commit_def)
      with s1 have "checkout_steps g r rp w = ?tail ?w1" by (simp add: and_then_def)
      with tail [of ?w1] None False show ?thesis by auto
    next
      case True
      let ?w2 = "\<lparr>fs = t2, trace = trace w @ [?clone, ?probe]\<rparr>"
      have f: "fetch_commit g r rp ?w1 =
          (if e2 = Some CalledProcessError then subprocess_run g ?unsh ?w2 else (e2, ?w2))"
        using True assms(2) by (simp add: fetch_commit_def subprocess_run_eq)
      show ?thesis
      proof (cases "e2 = Some CalledProcessError")
        case cpe: True
        let ?w3 = "\<lparr>fs = snd (g ?unsh t2), trace = trace w @ [?clone, ?probe, ?unsh]\<rparr>"
        have "checkout_steps g r rp w = and_then (fst (g ?unsh t2), ?w3) ?tail"
          using s1 f cpe by (simp add: subprocess_run_eq)
        then show ?thesis
        proof (cases "fst (g ?unsh t2)")
          case n3: None
          assume "checkout_steps g r rp w = and_then (fst (g ?unsh t2), ?w3) ?tail"
          with n3 have "checkout_steps g r rp w = ?tail ?w3" by (simp add: and_then_def)
          moreover from tail [of ?w3] obtain ys where
            "trace (snd (?tail ?w3)) = trace ?w3 @ ?conf # ys" "set ys \<subseteq> {?co}" by blast
          ultimately have "trace (snd (checkout_steps g r rp w)) =
              trace w @ ?clone # ?probe # ?unsh # (?conf # ys) \<and> set (?conf # ys) \<subseteq> {?conf, ?co}"
            by auto
          with None True cpe show ?thesis by (intro exI [of _ "?conf # ys"]) simp
        next
          case (Some x)
          assume "checkout_steps g r rp w = and_then (fst (g ?unsh t2), ?w3) ?tail"
          with Some have "trace (snd (checkout_steps g r rp w)) = trace w @ [?clone, ?probe, ?unsh]"
            by (simp add: and_then_def)
          with None True cpe show ?thesis by (intro exI [of _ "[]"]) simp
        qed
      next
        case ncpe: False
        with s1 f have s2: "checkout_steps g r rp w = and_then (e2, ?w2) ?tail" by simp
        show ?thesis
        proof (cases e2)
          case n2: None
          with s2 have "checkout_steps g r rp w = ?tail ?w2" by (simp add: and_then_def)
          with tail [of ?w2] None True n2 show ?thesis by auto
        next
          case (Some x)
          with s2 have "trace (snd (checkout_steps g r rp w)) = trace w @ [?clone, ?probe]"
            by (simp add: and_then_def)
          with None True ncpe Some show ?thesis by (intro exI [of _ "[]"]) simp
        qed
      qed
    qed
  qed
qed

text \<open>
  C3. Let the clone command leave \<open>e1\<close> (no exception, or the one raised) and the object
  probe, run on what the clone left, leave \<open>e2\<close>. The command that fetches the full history
  is among the commands of the run exactly when the clone succeeded, the kind is Commit and
  the probe exited non-zero. After a successful clone the next command is the sparse
  configuration when the kind is not Commit, and the probe followed by the sparse
  configuration when the kind is Commit and the probe succeeds; only after a probe that
  exited non-zero does the full fetch follow the probe.
\<close>

theorem history_extension_iff:
  assumes "parse_github_url urlparse_path url = Inr r"
    and "rp = path_str (path_join temp_dir (repo r))"
    and "g (clone_cmd r (clone_url_of r) rp) (put temp_dir (Dir []) t) = (e1, t1)"
    and "g (cat_file_cmd rp (git_ref r)) t1 = (e2, t2)"
    and "tr = trace (snd (download_with_sparse_checkout g urlparse_path url output_dir temp_dir t))"
  shows "(unshallow_cmd rp \<in> set tr \<longleftrightarrow>
            e1 = None \<and> ref_type r = Commit \<and> e2 = Some CalledProcessError)
       \<and> (e1 = None \<and> ref_type r \<noteq> Commit \<longrightarrow>
            take 2 tr = [clone_cmd r (clone_url_of r) rp, config_cmd rp])
       \<and> (e1 = None \<and> ref_type r = Commit \<and> e2 = None \<longrightarrow>
            take 3 tr = [clone_cmd r (clone_url_of r) rp, cat_file_cmd rp (git_ref r),
                         config_cmd rp])
       \<and> (e1 = None \<and> ref_type r = Commit \<and> e2 = Some CalledProcessError \<longrightarrow>
            take 3 tr = [clone_cmd r (clone_url_of r) rp, cat_file_cmd rp (git_ref r),
                         unshallow_cmd rp])"
proof -
  let ?w0 = "\<lparr>fs = put temp_dir (Dir []) t, trace = []\<rparr>"
  have tr: "tr = trace (snd (checkout_steps g r (path_join temp_dir (repo r)) ?w0))"
    using assms(5) download_trace [OF assms(1)] by (simp add: workspace_after_checkout_def)
  from assms(3) have c: "g (clone_cmd r (clone_url_of r) (path_str (path_join temp_dir (repo r))))
      (fs ?w0) = (e1, t1)"
    by (simp add: assms(2))
  from assms(4) have p: "g (cat_file_cmd (path_str (path_join temp_dir (repo r))) (git_ref r)) t1
      = (e2, t2)"
    by (simp add: assms(2))
  from checkout_steps_trace [OF c p] obtain ys where
    ys: "set ys \<subseteq> {config_cmd rp, checkout_cmd rp (git_ref r)}"
    and shape: "tr = clone_cmd r (clone_url_of r) rp #
          (if e1 \<noteq> None then []
           else if ref_type r \<noteq> Commit then config_cmd rp # ys
           else if e2 = None then cat_file_cmd rp (git_ref r) # config_cmd rp # ys
           else if e2 = Some CalledProcessError then
             cat_file_cmd rp (git_ref r) # unshallow_cmd rp # ys
           else [cat_file_cmd rp (git_ref r)])"
    unfolding tr assms(2) by auto
  have notin: "unshallow_cmd rp \<notin> set ys"
    using ys unshallow_distinct(3,4) by blast
  show ?thesis
    unfolding shape using notin
    by (auto simp: unshallow_distinct)
qed


theorem history_extension_iff_witness:
  "unshallow_cmd ''/tmp/ws/r'' \<in> set (trace (snd (download_with_sparse_checkout example_git
      (drop 18) ''https://github.com/o/r/tree/03b85877996253b0518e8a57f6249a4d2dcf4697''
      [''home'', ''out''] [''tmp'', ''ws''] (Dir []))))
   \<and> take 2 (trace (snd (download_with_sparse_checkout example_git
      (drop 18) ''https://github.com/o/r/tree/main/src''
      [''home'', ''out''] [''tmp'', ''ws''] (Dir [])))) =
     [[''git'', ''clone'', ''--no-checkout'', ''--filter=blob:none'', ''--depth'', ''1'',
       ''--branch'', ''main'', ''https://github.com/o/r.git'', ''/tmp/ws/r''],
      [''git'', ''-C'', ''/tmp/ws/r'', ''config'', ''--local'', ''core.sparseCheckout'',
       ''true'']]"
proof -
  let ?c = "\<lparr>owner = ''o'', repo = ''r'',
             git_ref = ''03b85877996253b0518e8a57f6249a4d2dcf4697'', ref_type = Commit,
             folder_path = []\<rparr>"
  let ?b = "\<lparr>owner = ''o'', repo = ''r'', git_ref = ''main'', ref_type = Branch,
             folder_path = ''src''\<rparr>"
  let ?t0 = "put [''tmp'', ''ws''] (Dir []) (Dir [])"
  let ?t1 = "put [''tmp'', ''ws'', ''r'', ''.git'', ''info''] (Dir []) ?t0"
  have pc: "parse_github_url (drop 18)
      ''https://github.com/o/r/tree/03b85877996253b0518e8a57f6249a4d2dcf4697'' = Inr ?c"
    by (simp add: parse_github_url_def path_parts_of_def strip_def rstrip_def
          parse_path_parts_def classify_ref_def lower_def lower_char_def)
  have pb: "parse_github_url (drop 18) ''https://github.com/o/r/tree/main/src'' = Inr ?b"
    by (simp add: parse_github_url_def path_parts_of_def strip_def rstrip_def
          parse_path_parts_def classify_ref_def lower_def lower_char_def startswith_def)
  have rp: "path_str (path_join [''tmp'', ''ws''] ''r'') = ''/tmp/ws/r''"
    by (simp add: path_str_def path_join_def path_parts_def startswith_def)
  have rpc: "''/tmp/ws/r'' = path_str (path_join [''tmp'', ''ws''] (repo ?c))"
    and rpb: "''/tmp/ws/r'' = path_str (path_join [''tmp'', ''ws''] (repo ?b))"
    using rp by simp_all
  have pp: "path_parts ''/tmp/ws/r'' = [''tmp'', ''ws'', ''r'']"
    by (simp add: path_parts_def)
  have c1: "example_git (clone_cmd ?c (clone_url_of ?c) ''/tmp/ws/r'') ?t0 = (None, ?t1)"
    by (simp add: clone_cmd_eq example_git_def pp)
  have c2: "example_git (cat_file_cmd ''/tmp/ws/r'' (git_ref ?c)) ?t1 =
      (Some CalledProcessError, ?t1)"
    by (simp add: cat_file_cmd_def example_git_def)
  have b1: "example_git (clone_cmd ?b (clone_url_of ?b) ''/tmp/ws/r'') ?t0 = (None, ?t1)"
    by (simp add: clone_cmd_eq example_git_def pp)
  have b2: "example_git (cat_file_cmd ''/tmp/ws/r'' (git_ref ?b)) ?t1 =
      (Some CalledProcessError, ?t1)"
    by (simp add: cat_file_cmd_def example_git_def)
  from history_extension_iff [OF pc rpc c1 c2 refl, of "[''home'', ''out'']"]
  have "unshallow_cmd ''/tmp/ws/r'' \<in> set (trace (snd (download_with_sparse_checkout example_git
      (drop 18) ''https://github.com/o/r/tree/03b85877996253b0518e8a57f6249a4d2dcf4697''
      [''home'', ''out''] [''tmp'', ''ws''] (Dir []))))"
    by simp
  moreover
  from history_extension_iff [OF pb rpb b1 b2 refl, of "[''home'', ''out'']"]
  have "take 2 (trace (snd (download_with_sparse_checkout example_git
      (drop 18) ''https://github.com/o/r/tree/main/src''
      [''home'', ''out''] [''tmp'', ''ws''] (Dir [])))) =
     [clone_cmd ?b (clone_url_of ?b) ''/tmp/ws/r'', config_cmd ''/tmp/ws/r'']"
    by simp
  ultimately show ?thesis
    by (simp add: clone_cmd_eq clone_url_of_def config_cmd_def)
qed

subsection \<open>The workspace and the missing path\<close>


lemma download_fs:
  assumes "parse_github_url urlparse_path url = Inr r"
  shows "fs (snd (download_with_sparse_checkout g urlparse_path url out tmp t)) =
         del tmp (fs (snd (try_body g r out (path_join tmp (repo r))
                            \<lparr>fs = put tmp (Dir []) t, trace = []\<rparr>)))"
  using download_parsed [OF assms, of g out tmp t]
  by (simp split: prod.splits)

text \<open>
  C9. Once the URL has parsed, so that a workspace is made, nothing is left at or below
  the temporary directory when the operation returns: whatever git does at each command,
  and whether the run returns True, returns False after any exception, or lets a
  \<open>KeyboardInterrupt\<close> pass.
\<close>

theorem workspace_removed:
  assumes "parse_github_url urlparse_path url = Inr r" and "temp_dir \<noteq> []"
  shows "get (fs (snd (download_with_sparse_checkout g urlparse_path url output_dir temp_dir t)))
           (temp_dir @ q) = None
         \<and> \<not> exists (fs (snd (download_with_sparse_checkout g urlparse_path url output_dir
                                 temp_dir t))) temp_dir"
proof -
  have "get (fs (snd (download_with_sparse_checkout g urlparse_path url output_dir temp_dir t)))
           (temp_dir @ x) = None" for x
    using assms(2) by (simp add: download_fs [OF assms(1)] del_get_under)
  from this [of q] this [of "[]"] show ?thesis by (simp add: exists_def)
qed



theorem workspace_removed_witness:
  "get (fs (snd (download_with_sparse_checkout example_git (drop 18)
      ''https://github.com/o/r/tree/main/docs'' [''home'', ''out''] [''tmp'', ''ws'']
      (Dir [])))) [''tmp'', ''ws''] = None
   \<and> get (fs (snd (download_with_sparse_checkout (\<lambda>cmd t. (Some CalledProcessError, t))
      (drop 18) ''https://github.com/o/r'' [''home'', ''out''] [''tmp'', ''ws'']
      (Dir [])))) [''tmp'', ''ws'', ''r''] = None"
proof -
  have p1: "parse_github_url (drop 18) ''https://github.com/o/r/tree/main/docs'' =
      Inr \<lparr>owner = ''o'', repo = ''r'', git_ref = ''main'', ref_type = Branch,
           folder_path = ''docs''\<rparr>"
    by (simp add: parse_github_url_def path_parts_of_def strip_def rstrip_def
          parse_path_parts_def classify_ref_def lower_def lower_char_def startswith_def)
  have p2: "parse_github_url (drop 18) ''https://github.com/o/r'' =
      Inr \<lparr>owner = ''o'', repo = ''r'', git_ref = ''main'', ref_type = Branch,
           folder_path = []\<rparr>"
    by (simp add: parse_github_url_def path_parts_of_def strip_def rstrip_def
          parse_path_parts_def)
  have ne: "[''tmp'', ''ws''] \<noteq> []" by simp
  from workspace_removed [OF p1 ne, of example_git "[''home'', ''out'']" "Dir []" "[]"]
    workspace_removed [OF p2 ne, of "\<lambda>cmd t. (Some CalledProcessError, t)"
      "[''home'', ''out'']" "Dir []" "[''r'']"]
  show ?thesis by simp
qed



subsection \<open>Running twice\<close>







end
